theory Spec2Isabelle
  imports Complex_Main
begin

section \<open>Numbers\<close>

text \<open>
  The program is TypeScript; its numbers are IEEE doubles. They are modelled as reals.
  Where the rounding of an operation bears on what is proved (the subtraction and the
  addition of \<open>handleMove\<close>, and those of \<open>generateTimePoints\<close>), the operation is taken from
  an \<open>engine\<close>, so that a statement for every engine is one about the doubles of the
  program too; elsewhere arithmetic is exact. The engine also gives the largest length
  an array can have: \<open>push\<close> on an array of that length throws \<open>RangeError\<close>.
  The modelled code leaves the finite numbers in two places, both divisions by zero: in
  \<open>detectHitArea\<close>, where only comparisons follow and their outcome is written out, and in
  \<open>pixelToTime\<close>, whose result can then be \<open>NaN\<close>; that value is kept as a value of its own.
\<close>

datatype number = Num real | NaN

record engine =
  fadd :: "real \<Rightarrow> real \<Rightarrow> real"
  fsub :: "real \<Rightarrow> real \<Rightarrow> real"
  maxArrayLength :: nat

text \<open>Exact arithmetic, with the array length limit of the language, \<open>2^32 - 1\<close>. It
  agrees with the doubles of the program wherever the exact result is a double.\<close>

definition exact_engine :: engine where
  "exact_engine = \<lparr>fadd = (+), fsub = (-), maxArrayLength = 4294967295\<rparr>"

text \<open>\<open>utils/time-format.ts\<close>: \<open>Math.round(value * factor) / factor\<close>.
  \<open>Math.round\<close> rounds half up, as \<^const>\<open>round\<close> does.\<close>

definition roundToDecimals :: "real \<Rightarrow> nat \<Rightarrow> real" where
  "roundToDecimals v decimals =
     (let factor = 10 ^ decimals in real_of_int (round (v * factor)) / factor)"

section \<open>Drag interaction (\<open>hooks/use-drag-interaction.ts\<close>)\<close>

record TimeRange =
  range_start :: real
  range_end :: real

datatype DragType = DragCursor | DragStart | DragEnd

datatype HitAreaType = Hit DragType | Track

text \<open>The options of \<open>useDragInteraction\<close> that its handlers read.\<close>

record options =
  duration :: real
  currentTime :: real
  selectedRange :: TimeRange
  scaleHeight :: real
  frameHeight :: real
  handleWidth :: real
  minDuration :: real
  disabled :: bool

text \<open>What the handlers read from the canvas element: \<open>getBoundingClientRect()\<close> and
  \<open>offsetWidth\<close>. \<open>canvasRef.current\<close> is a \<open>canvas option\<close>.\<close>

record canvas =
  rect_left :: real
  rect_top :: real
  offsetWidth :: real

text \<open>The calls made on the callbacks of the options, in order.\<close>

datatype event =
    TimeChange number
  | RangeChange number number
  | DragStarted DragType
  | DragEnded DragType

record dragState =
  dragTypeRef :: "DragType option"
  startXRef :: real
  startRangeRef :: TimeRange
  startTimeRef :: real
  isDragging :: bool
  dragType :: "DragType option"

text \<open>The expression \<open>handleWidth + (t / duration) * effectiveWidth\<close>, which
  \<open>detectHitArea\<close> (for both selection edges), the renderer and the tooltip share.\<close>

definition timeToPixel :: "options \<Rightarrow> real \<Rightarrow> real \<Rightarrow> real" where
  "timeToPixel opts width t =
     handleWidth opts + (t / duration opts) * (width - handleWidth opts * 2)"

text \<open>
  \<open>detectHitArea\<close>. With \<open>duration = 0\<close> the source divides by zero: \<open>startX\<close> and \<open>endX\<close>
  are infinite or NaN, both handle tests are false and the result is \<open>cursor\<close>.
\<close>

definition detectHitArea :: "options \<Rightarrow> canvas option \<Rightarrow> real \<Rightarrow> real \<Rightarrow> HitAreaType option" where
  "detectHitArea opts cv clientX clientY =
     (case cv of
        None \<Rightarrow> None
      | Some c \<Rightarrow>
          let x = clientX - rect_left c;
              y = clientY - rect_top c
          in if y < scaleHeight opts \<or> y > scaleHeight opts + frameHeight opts
             then (if y \<ge> 0 \<and> y < scaleHeight opts then Some (Hit DragCursor) else None)
             else if duration opts = 0 then Some (Hit DragCursor)
             else
               let width = offsetWidth c;
                   startX = timeToPixel opts width (range_start (selectedRange opts));
                   endX = timeToPixel opts width (range_end (selectedRange opts))
               in if x \<ge> startX - handleWidth opts \<and> x \<le> startX then Some (Hit DragStart)
                  else if x \<ge> endX \<and> x \<le> endX + handleWidth opts then Some (Hit DragEnd)
                  else if x \<ge> startX \<and> x \<le> endX then Some (Hit DragCursor)
                  else Some (Hit DragCursor))"

text \<open>
  \<open>pixelToTime\<close>. With \<open>effectiveWidth = 0\<close> the quotient is \<open>+Infinity\<close>, \<open>-Infinity\<close> or
  NaN; the clamp maps the first to \<open>duration\<close>, the second to \<open>0\<close> and keeps NaN.
\<close>

definition pixelToTime :: "options \<Rightarrow> canvas option \<Rightarrow> real \<Rightarrow> number" where
  "pixelToTime opts cv clientX =
     (case cv of
        None \<Rightarrow> Num 0
      | Some c \<Rightarrow>
          if duration opts \<le> 0 then Num 0
          else
            let x = clientX - rect_left c;
                width = offsetWidth c;
                effectiveWidth = width - handleWidth opts * 2
            in if effectiveWidth = 0
               then (if x - handleWidth opts > 0
                     then Num (roundToDecimals (max 0 (duration opts)) 2)
                     else if x - handleWidth opts < 0
                     then Num (roundToDecimals (max 0 0) 2)
                     else NaN)
               else
                 let time = ((x - handleWidth opts) / effectiveWidth) * duration opts
                 in Num (roundToDecimals (max 0 (min (duration opts) time)) 2))"

text \<open>\<open>handleStart\<close>: the new drag state and the callbacks called.\<close>

definition handleStart ::
  "options \<Rightarrow> canvas option \<Rightarrow> dragState \<Rightarrow> real \<Rightarrow> real \<Rightarrow> dragState \<times> event list" where
  "handleStart opts cv st clientX clientY =
     (if disabled opts then (st, [])
      else case detectHitArea opts cv clientX clientY of
             None \<Rightarrow> (st, [])
           | Some Track \<Rightarrow> (st, [])
           | Some (Hit hitArea) \<Rightarrow>
               let st' = st\<lparr>dragTypeRef := Some hitArea,
                             startXRef := clientX,
                             startRangeRef := selectedRange opts,
                             startTimeRef := currentTime opts,
                             isDragging := True,
                             dragType := Some hitArea\<rparr>;
                   time = pixelToTime opts cv clientX
               in (st', DragStarted hitArea #
                        (case hitArea of
                           DragCursor \<Rightarrow> [TimeChange time]
                         | DragStart \<Rightarrow> [TimeChange (Num (range_start (selectedRange opts)))]
                         | DragEnd \<Rightarrow> [TimeChange (Num (range_end (selectedRange opts)))])))"

text \<open>The \<open>switch\<close> of \<open>handleMove\<close> at a finite \<open>time\<close>.\<close>

definition moveStep :: "engine \<Rightarrow> options \<Rightarrow> DragType \<Rightarrow> real \<Rightarrow> event list" where
  "moveStep eng opts k time =
     (case k of
        DragCursor \<Rightarrow> [TimeChange (Num time)]
      | DragStart \<Rightarrow>
          let newStart = min time (fsub eng (range_end (selectedRange opts)) (minDuration opts));
              clampedStart = max 0 newStart
          in if clampedStart \<noteq> range_start (selectedRange opts)
             then [RangeChange (Num clampedStart) (Num (range_end (selectedRange opts))),
                   TimeChange (Num clampedStart)]
             else []
      | DragEnd \<Rightarrow>
          let newEnd = max time (fadd eng (range_start (selectedRange opts)) (minDuration opts));
              clampedEnd = min (duration opts) newEnd
          in if clampedEnd \<noteq> range_end (selectedRange opts)
             then [RangeChange (Num (range_start (selectedRange opts))) (Num clampedEnd),
                   TimeChange (Num clampedEnd)]
             else [])"

text \<open>The same \<open>switch\<close> when \<open>time\<close> is NaN: \<open>Math.min\<close> and \<open>Math.max\<close> return NaN,
  and \<open>NaN !== x\<close> is true.\<close>

definition moveNaN :: "options \<Rightarrow> DragType \<Rightarrow> event list" where
  "moveNaN opts k =
     (case k of
        DragCursor \<Rightarrow> [TimeChange NaN]
      | DragStart \<Rightarrow> [RangeChange NaN (Num (range_end (selectedRange opts))), TimeChange NaN]
      | DragEnd \<Rightarrow> [RangeChange (Num (range_start (selectedRange opts))) NaN, TimeChange NaN])"

definition handleMove ::
  "engine \<Rightarrow> options \<Rightarrow> canvas option \<Rightarrow> dragState \<Rightarrow> real \<Rightarrow> event list" where
  "handleMove eng opts cv st clientX =
     (case dragTypeRef st of
        None \<Rightarrow> []
      | Some k \<Rightarrow>
          (case pixelToTime opts cv clientX of
             NaN \<Rightarrow> moveNaN opts k
           | Num time \<Rightarrow> moveStep eng opts k time))"

definition handleEnd :: "dragState \<Rightarrow> dragState \<times> event list" where
  "handleEnd st =
     (st\<lparr>dragTypeRef := None, isDragging := False, dragType := None\<rparr>,
      (case dragTypeRef st of None \<Rightarrow> [] | Some k \<Rightarrow> [DragEnded k]))"

section \<open>Time points (\<open>utils/frame-extractor.ts\<close>)\<close>

text \<open>The errors thrown: \<open>VideoFrameExtractor\<close> disposed, video load failed, no frame
  captured at a time, whatever \<open>drawImage\<close> or \<open>toDataURL\<close> throws, and the \<open>RangeError\<close> of
  an array that cannot grow.\<close>

datatype extract_error = Disposed | LoadFailed | CaptureFailed real | DrawFailed | RangeError

text \<open>
  The \<open>for\<close> loop of \<open>generateTimePoints\<close>: \<open>t += interval\<close> is the addition of the engine, and
  \<open>points.push(t)\<close> throws once the array has its largest length. Nothing else bounds the
  loop; the room left in the array is what makes it end.
\<close>

function generateLoop ::
  "engine \<Rightarrow> real \<Rightarrow> real \<Rightarrow> real \<Rightarrow> real list \<Rightarrow> extract_error + real list" where
  "generateLoop eng dur interval t points =
     (if t < dur
      then (if length points < maxArrayLength eng
            then generateLoop eng dur interval (fadd eng t interval) (points @ [t])
            else Inl RangeError)
      else Inr points)"
  by pat_completeness auto
termination
  by (relation "measure (\<lambda>(eng, dur, interval, t, points). maxArrayLength eng - length points)")
     auto

declare generateLoop.simps [simp del]

text \<open>On an empty list \<open>points[points.length - 1]\<close> is \<open>undefined\<close> and the comparison is
  false.\<close>

definition generateTimePoints :: "engine \<Rightarrow> real \<Rightarrow> real \<Rightarrow> extract_error + real list" where
  "generateTimePoints eng dur interval =
     (case generateLoop eng dur interval 0 [] of
        Inl e \<Rightarrow> Inl e
      | Inr points \<Rightarrow>
          if points \<noteq> [] \<and> last points < fsub eng dur 0.1
          then (if length points < maxArrayLength eng
                then Inr (points @ [fsub eng dur 0.01])
                else Inl RangeError)
          else Inr points)"


section \<open>Frame extractor (\<open>utils/frame-extractor.ts\<close>)\<close>

text \<open>
  The extractor is asynchronous: it suspends on events of its video element. It is
  modelled as a machine whose steps are those events and the calls made on it. A step
  runs what the source runs between two suspensions (a handler and the continuations it
  resumes); callbacks are taken not to call back into the extractor. The canvas, the
  frame size and \<open>pause()\<close> play no part in what is proved and are left out. The local
  \<open>frames\<close> array never has more elements than \<open>timePoints\<close>, so its \<open>push\<close> does not throw.
\<close>

datatype source = Url string | File nat

record VideoFrame =
  frame_time :: real
  imageData :: string

datatype video_src = BlobSrc nat | UrlSrc string

text \<open>
  The fields of \<open>VideoFrameExtractor\<close> and what is used of its video element.
  \<open>loadHandlers\<close> stands for \<open>currentLoadHandler\<close> and \<open>currentErrorHandler\<close>, which are set
  and cleared together; its value is the \<open>src\<close> their closures hold. \<open>blobsCreated\<close> and
  \<open>blobsRevoked\<close> record the calls of \<open>URL.createObjectURL\<close> (the k-th returns the URL \<open>k\<close>)
  and the arguments of \<open>URL.revokeObjectURL\<close>.
\<close>

record extractor =
  isDisposed :: bool
  currentSrc :: "source option"
  blobUrl :: "nat option"
  loadHandlers :: "source option"
  video_srcAttr :: "video_src option"
  video_crossOrigin :: bool
  video_readyState1 :: bool
  video_duration :: real
  blobsCreated :: nat
  blobsRevoked :: "nat list"

definition newExtractor :: extractor where
  "newExtractor = \<lparr>isDisposed = False, currentSrc = None, blobUrl = None, loadHandlers = None,
      video_srcAttr = None, video_crossOrigin = False, video_readyState1 = False,
      video_duration = 0, blobsCreated = 0, blobsRevoked = []\<rparr>"

definition cleanupListeners :: "extractor \<Rightarrow> extractor" where
  "cleanupListeners x = x\<lparr>loadHandlers := None\<rparr>"

definition revokeBlobUrl :: "extractor \<Rightarrow> extractor" where
  "revokeBlobUrl x =
     (case blobUrl x of
        Some u \<Rightarrow> x\<lparr>blobsRevoked := blobsRevoked x @ [u], blobUrl := None\<rparr>
      | None \<Rightarrow> x)"

text \<open>\<open>dispose\<close> removes the load listeners only: the \<open>seeked\<close> and \<open>error\<close> listeners of a
  pending \<open>captureFrame\<close> stay registered. Removing the \<open>src\<close> attribute starts no new load
  (the source avoids \<open>load()\<close> on purpose), so a seek that is pending can still complete.\<close>

definition dispose :: "extractor \<Rightarrow> extractor" where
  "dispose x =
     (revokeBlobUrl (cleanupListeners (x\<lparr>isDisposed := True\<rparr>)))
       \<lparr>currentSrc := None, video_srcAttr := None\<rparr>"

text \<open>Assigning \<open>video.src\<close> starts a new load, so the ready state drops below 1.\<close>

definition setVideoSrc :: "extractor \<Rightarrow> source \<Rightarrow> extractor" where
  "setVideoSrc x src =
     (case src of
        File f \<Rightarrow>
          x\<lparr>video_crossOrigin := False,
            blobUrl := Some (blobsCreated x),
            blobsCreated := Suc (blobsCreated x),
            video_srcAttr := Some (BlobSrc (blobsCreated x)),
            video_readyState1 := False\<rparr>
      | Url s \<Rightarrow>
          if take 7 s = ''http://'' \<or> take 8 s = ''https://''
          then x\<lparr>video_crossOrigin := True, video_srcAttr := Some (UrlSrc s),
                 video_readyState1 := False\<rparr>
          else x\<lparr>video_crossOrigin := False, video_srcAttr := Some (UrlSrc s),
                 video_readyState1 := False\<rparr>)"

text \<open>\<open>loadVideo\<close> up to its promise: \<open>Inl\<close> when it throws, otherwise the extractor and
  whether the promise is already resolved (\<open>True\<close>) or waits for the video (\<open>False\<close>).\<close>

definition loadVideo :: "extractor \<Rightarrow> source \<Rightarrow> extract_error + (extractor \<times> bool)" where
  "loadVideo x src =
     (if isDisposed x then Inl Disposed
      else if currentSrc x = Some src \<and> video_readyState1 x then Inr (x, True)
      else Inr (setVideoSrc ((revokeBlobUrl (cleanupListeners x))\<lparr>loadHandlers := Some src\<rparr>) src,
                False))"

text \<open>Where a call is suspended. \<open>AwaitDuration\<close> is \<open>getDuration\<close> waiting for \<open>loadVideo\<close>,
  \<open>AwaitLoad\<close> is \<open>extractFrames\<close> waiting for it, \<open>AwaitSeek i time\<close> is \<open>captureFrame(time)\<close>
  of iteration \<open>i\<close> waiting for \<open>seeked\<close>.\<close>

datatype pending =
    AwaitDuration
  | AwaitLoad
  | AwaitSeek nat real
  | Returned
  | Threw extract_error

text \<open>One run of the body of the hook's \<open>extractFrames\<close>: its extractor, what its closure
  holds, and the local \<open>frames\<close> of \<open>VideoFrameExtractor.extractFrames\<close>.\<close>

record task =
  ext :: extractor
  task_src :: source
  task_interval :: real
  timePoints :: "real list"
  pend :: pending
  frames :: "VideoFrame list"

text \<open>What a step hands to the hook: a call of the \<open>onProgress\<close> argument, the value
  \<open>extractFrames\<close> resolves with, or the error caught.\<close>

datatype out_event = Progress real | Complete "VideoFrame list" | Failed extract_error

datatype vevent = LoadedMetadata real | VideoError | Seeked "string option"

text \<open>The head of the \<open>for\<close> loop at index \<open>i\<close>.\<close>

definition loopHead :: "task \<Rightarrow> nat \<Rightarrow> task \<times> out_event list" where
  "loopHead t i =
     (if i < length (timePoints t)
      then (if isDisposed (ext t) then (t\<lparr>pend := Returned\<rparr>, [Complete (frames t)])
            else (t\<lparr>pend := AwaitSeek i (timePoints t ! i)\<rparr>, []))
      else (t\<lparr>pend := Returned\<rparr>, [Complete (frames t)]))"

text \<open>\<open>VideoFrameExtractor.extractFrames\<close> up to its first suspension.\<close>

definition extractFrames :: "task \<Rightarrow> task \<times> out_event list" where
  "extractFrames t =
     (if isDisposed (ext t) then (t\<lparr>pend := Threw Disposed\<rparr>, [Failed Disposed])
      else case loadVideo (ext t) (task_src t) of
             Inl e \<Rightarrow> (t\<lparr>pend := Threw e\<rparr>, [Failed e])
           | Inr (x, resolved) \<Rightarrow>
               if resolved then loopHead (t\<lparr>ext := x, frames := []\<rparr>) 0
               else (t\<lparr>ext := x, pend := AwaitLoad\<rparr>, []))"

text \<open>The hook's \<open>extractFrames\<close> once the duration is known. It runs inside the \<open>try\<close>
  block, so an error of \<open>generateTimePoints\<close> is caught like any other.\<close>

definition withDuration :: "engine \<Rightarrow> task \<Rightarrow> real \<Rightarrow> task \<times> out_event list" where
  "withDuration eng t actualDuration =
     (case generateTimePoints eng actualDuration (task_interval t) of
        Inl e \<Rightarrow> (t\<lparr>pend := Threw e\<rparr>, [Failed e])
      | Inr tps \<Rightarrow> extractFrames (t\<lparr>timePoints := tps\<rparr>))"

text \<open>An event of the video element reaches the listeners registered at that moment.\<close>

definition taskStep :: "engine \<Rightarrow> vevent \<Rightarrow> task \<Rightarrow> task \<times> out_event list" where
  "taskStep eng ev t =
     (case ev of
        LoadedMetadata d \<Rightarrow>
          (let x = (ext t)\<lparr>video_readyState1 := True, video_duration := d\<rparr>
           in case loadHandlers x of
                None \<Rightarrow> (t\<lparr>ext := x\<rparr>, [])
              | Some src \<Rightarrow>
                  let t' = t\<lparr>ext := (cleanupListeners x)\<lparr>currentSrc := Some src\<rparr>\<rparr>
                  in (case pend t of
                        AwaitDuration \<Rightarrow> withDuration eng t' (video_duration (ext t'))
                      | AwaitLoad \<Rightarrow> loopHead (t'\<lparr>frames := []\<rparr>) 0
                      | _ \<Rightarrow> (t', [])))
      | VideoError \<Rightarrow>
          (case loadHandlers (ext t) of
             Some src \<Rightarrow>
               let t' = t\<lparr>ext := cleanupListeners (ext t)\<rparr>
               in if isDisposed (ext t') then (t', [])
                  else (t'\<lparr>pend := Threw LoadFailed\<rparr>, [Failed LoadFailed])
           | None \<Rightarrow>
               (case pend t of
                  AwaitSeek i time \<Rightarrow> (t\<lparr>pend := Threw (CaptureFailed time)\<rparr>,
                                       [Failed (CaptureFailed time)])
                | _ \<Rightarrow> (t, [])))
      | Seeked drawn \<Rightarrow>
          (case pend t of
             AwaitSeek i time \<Rightarrow>
               (case drawn of
                  None \<Rightarrow> (t\<lparr>pend := Threw DrawFailed\<rparr>, [Failed DrawFailed])
                | Some data \<Rightarrow>
                    let t' = t\<lparr>frames := frames t @ [\<lparr>frame_time = time, imageData = data\<rparr>]\<rparr>;
                        p = (real (i + 1) / real (length (timePoints t))) * 100;
                        r = loopHead t' (i + 1)
                    in (fst r, Progress p # snd r))
           | _ \<Rightarrow> (t, [])))"

text \<open>The steps of one task: events of its video element and calls of \<open>dispose()\<close>.\<close>

datatype tevent = Vid vevent | DisposeCall

definition tstep :: "engine \<Rightarrow> tevent \<Rightarrow> task \<Rightarrow> task \<times> out_event list" where
  "tstep eng e t =
     (case e of
        Vid ev \<Rightarrow> taskStep eng ev t
      | DisposeCall \<Rightarrow> (t\<lparr>ext := dispose (ext t)\<rparr>, []))"

fun runTask :: "engine \<Rightarrow> tevent list \<Rightarrow> task \<Rightarrow> task \<times> out_event list" where
  "runTask eng [] t = (t, [])"
| "runTask eng (e # es) t =
     (let r1 = tstep eng e t; r2 = runTask eng es (fst r1) in (fst r2, snd r1 @ snd r2))"

fun isProgress :: "out_event \<Rightarrow> bool" where
  "isProgress (Progress p) = True"
| "isProgress _ = False"

section \<open>Frame extraction hook (\<open>hooks/use-frame-extractor.ts\<close>)\<close>

record hookOptions =
  videoSrc :: "source option"
  durationProp :: "real option"
  frameInterval :: real

text \<open>\<open>actualDuration = await extractor.getDuration(videoSrc)\<close> and what follows it, up to
  the first suspension.\<close>

definition viaGetDuration :: "engine \<Rightarrow> task \<Rightarrow> task \<times> out_event list" where
  "viaGetDuration eng t =
     (case loadVideo (ext t) (task_src t) of
        Inl e \<Rightarrow> (t\<lparr>pend := Threw e\<rparr>, [Failed e])
      | Inr (x, resolved) \<Rightarrow>
          if resolved then withDuration eng (t\<lparr>ext := x\<rparr>) (video_duration x)
          else (t\<lparr>ext := x, pend := AwaitDuration\<rparr>, []))"

text \<open>The \<open>try\<close> block of the hook's \<open>extractFrames\<close> up to its first suspension, on a new
  extractor (whose constructor is taken to find a 2D context). A duration that is
  \<open>undefined\<close> or 0 is falsy and is read from the video.\<close>

definition startTask :: "engine \<Rightarrow> hookOptions \<Rightarrow> source \<Rightarrow> task \<times> out_event list" where
  "startTask eng opts src =
     (let t = \<lparr>ext = newExtractor, task_src = src, task_interval = frameInterval opts,
               timePoints = [], pend = AwaitDuration, frames = []\<rparr>
      in case durationProp opts of
           None \<Rightarrow> viaGetDuration eng t
         | Some d \<Rightarrow> if d = 0 then viaGetDuration eng t else withDuration eng t d)"

text \<open>The calls that reach the caller's \<open>onProgress\<close>, \<open>onComplete\<close> and \<open>onError\<close>, each with
  the number of the run that made it.\<close>

datatype callback =
    OnProgress nat real
  | OnComplete nat "VideoFrame list"
  | OnError nat extract_error

text \<open>The refs and state of one hook instance. \<open>tasks\<close> holds every run started so far;
  \<open>extractorRef\<close> is the number of the run whose extractor the ref holds.\<close>

record hook =
  abortRef :: bool
  extractorRef :: "nat option"
  tasks :: "task list"
  delivered :: "callback list"
  loading :: bool
  progress :: real
  hook_error :: "extract_error option"
  hook_frames :: "VideoFrame list"

definition newHook :: hook where
  "newHook = \<lparr>abortRef = False, extractorRef = None, tasks = [], delivered = [],
      loading = False, progress = 0, hook_error = None, hook_frames = []\<rparr>"

text \<open>The three guarded places of the hook: the progress wrapper, the code after the
  \<open>await\<close>, and the \<open>catch\<close>.\<close>

definition deliver :: "nat \<Rightarrow> hook \<Rightarrow> out_event \<Rightarrow> hook" where
  "deliver k h out =
     (if abortRef h then h
      else case out of
             Progress p \<Rightarrow> h\<lparr>progress := p, delivered := delivered h @ [OnProgress k p]\<rparr>
           | Complete fs \<Rightarrow>
               h\<lparr>hook_frames := fs, loading := False,
                 delivered := delivered h @ [OnComplete k fs]\<rparr>
           | Failed e \<Rightarrow>
               h\<lparr>hook_error := Some e, loading := False,
                 delivered := delivered h @ [OnError k e]\<rparr>)"

text \<open>\<open>extractorRef.current?.dispose()\<close>.\<close>

definition disposeCurrent :: "hook \<Rightarrow> hook" where
  "disposeCurrent h =
     (case extractorRef h of
        None \<Rightarrow> h
      | Some k \<Rightarrow>
          if k < length (tasks h)
          then h\<lparr>tasks := (tasks h)[k := (tasks h ! k)\<lparr>ext := dispose (ext (tasks h ! k))\<rparr>]\<rparr>
          else h)"

text \<open>The hook's \<open>extractFrames\<close>. An empty string is falsy, as \<open>undefined\<close> is.\<close>

definition hookExtract :: "engine \<Rightarrow> hookOptions \<Rightarrow> hook \<Rightarrow> hook" where
  "hookExtract eng opts h =
     (case videoSrc opts of
        None \<Rightarrow> h
      | Some src \<Rightarrow>
          if src = Url [] then h
          else
            let h1 = disposeCurrent (h\<lparr>abortRef := True\<rparr>);
                h2 = h1\<lparr>abortRef := False, loading := True, progress := 0, hook_error := None\<rparr>;
                k = length (tasks h2);
                r = startTask eng opts src;
                h3 = h2\<lparr>tasks := tasks h2 @ [fst r], extractorRef := Some k\<rparr>
            in foldl (deliver k) h3 (snd r))"

text \<open>The cleanup of the effect.\<close>

definition hookCleanup :: "hook \<Rightarrow> hook" where
  "hookCleanup h = disposeCurrent (h\<lparr>abortRef := True\<rparr>)"

datatype hevent = Extract hookOptions | Cleanup | Video nat vevent

definition hookStep :: "engine \<Rightarrow> hook \<Rightarrow> hevent \<Rightarrow> hook" where
  "hookStep eng h e =
     (case e of
        Extract opts \<Rightarrow> hookExtract eng opts h
      | Cleanup \<Rightarrow> hookCleanup h
      | Video k ev \<Rightarrow>
          if k < length (tasks h)
          then let r = taskStep eng ev (tasks h ! k);
                   h' = h\<lparr>tasks := (tasks h)[k := fst r]\<rparr>
               in foldl (deliver k) h' (snd r)
          else h)"

definition runHook :: "engine \<Rightarrow> hevent list \<Rightarrow> hook \<Rightarrow> hook" where
  "runHook eng es h = foldl (hookStep eng) h es"

fun isComplete :: "callback \<Rightarrow> bool" where
  "isComplete (OnComplete k fs) = True"
| "isComplete _ = False"

section \<open>Renderer (\<open>utils/timeline-renderer.ts\<close>)\<close>

text \<open>
  What \<open>render\<close> draws, as the list of its drawing steps. The time scale, the selection
  mask, the handles and the cursor are one step each; a tile is the \<open>drawImage\<close> call with
  its image and rectangle. The image cache maps the \<open>imageData\<close> of a frame to its loaded
  image, which is identified by that string. \<open>decodes\<close> says for which strings \<open>loadImage\<close>
  resolves; for the others it rejects.
\<close>

datatype draw_op =
    ClearRect
  | DrawTimeScale
  | FillBackground
  | DrawImage string real real real real
  | DrawSelectionMask
  | DrawHandles
  | DrawCursor

datatype render_error = ImageLoadError

record renderOptions =
  r_frames :: "VideoFrame list"
  r_width :: real
  r_scaleHeight :: real
  r_frameHeight :: real
  r_handleWidth :: real
  r_showTimeScale :: bool
  r_backgroundColor :: string

text \<open>\<open>preloadFrameImages\<close>: \<open>Promise.all\<close> rejects as soon as one load rejects. The cache
  returned holds every image that loads.\<close>

definition preloadFrameImages ::
  "(string \<Rightarrow> bool) \<Rightarrow> (string \<rightharpoonup> string) \<Rightarrow> VideoFrame list
     \<Rightarrow> (render_error + unit) \<times> (string \<rightharpoonup> string)" where
  "preloadFrameImages decodes cache fs =
     (let missing = filter (\<lambda>f. cache (imageData f) = None) fs;
          cache' = fold (\<lambda>f c. c(imageData f \<mapsto> imageData f))
                     (filter (\<lambda>f. decodes (imageData f)) missing) cache
      in (if filter (\<lambda>f. \<not> decodes (imageData f)) missing = [] then Inr () else Inl ImageLoadError,
          cache'))"

definition drawFrames ::
  "(string \<Rightarrow> bool) \<Rightarrow> (string \<rightharpoonup> string) \<Rightarrow> VideoFrame list \<Rightarrow> real \<Rightarrow> real \<Rightarrow> real \<Rightarrow> real
     \<Rightarrow> (render_error + unit) \<times> draw_op list \<times> (string \<rightharpoonup> string)" where
  "drawFrames decodes cache fs width offsetY tileHeight handle =
     (let effectiveWidth = width - handle * 2;
          tileWidth = effectiveWidth / real (length fs);
          pre = preloadFrameImages decodes cache fs
      in case fst pre of
           Inl e \<Rightarrow> (Inl e, [], snd pre)
         | Inr u \<Rightarrow>
             (Inr (),
              concat (map (\<lambda>(i, frame).
                             case (snd pre) (imageData frame) of
                               Some img \<Rightarrow> [DrawImage img (handle + real i * tileWidth)
                                              offsetY tileWidth tileHeight]
                             | None \<Rightarrow> [])
                          (enumerate 0 fs)),
              snd pre))"

definition render ::
  "(string \<Rightarrow> bool) \<Rightarrow> (string \<rightharpoonup> string) \<Rightarrow> renderOptions
     \<Rightarrow> (render_error + unit) \<times> draw_op list \<times> (string \<rightharpoonup> string)" where
  "render decodes cache opts =
     (let offsetY = (if r_showTimeScale opts then r_scaleHeight opts else 0);
          before = [ClearRect]
                   @ (if r_showTimeScale opts then [DrawTimeScale] else [])
                   @ (if r_backgroundColor opts \<noteq> ''transparent'' then [FillBackground] else []);
          after = [DrawSelectionMask, DrawHandles, DrawCursor]
      in if length (r_frames opts) > 0
         then (let d = drawFrames decodes cache (r_frames opts) (r_width opts) offsetY
                         (r_frameHeight opts) (r_handleWidth opts)
               in case fst d of
                    Inl e \<Rightarrow> (Inl e, before @ fst (snd d), snd (snd d))
                  | Inr u \<Rightarrow> (Inr (), before @ fst (snd d) @ after, snd (snd d)))
         else (Inr (), before @ after, cache))"

section \<open>The regular time points in the spec's words\<close>

text \<open>\<open>stepsFrom eng interval dur t reg\<close>: the list \<open>reg\<close> starts at \<open>t\<close>, each of its points is
  strictly below the duration, each next point is the one before plus \<open>interval\<close> (as the
  engine adds), and the point after the last is not below the duration.\<close>

fun stepsFrom :: "engine \<Rightarrow> real \<Rightarrow> real \<Rightarrow> real \<Rightarrow> real list \<Rightarrow> bool" where
  "stepsFrom eng interval dur t [] = (\<not> t < dur)"
| "stepsFrom eng interval dur t (p # ps) =
     (p = t \<and> t < dur \<and> stepsFrom eng interval dur (fadd eng t interval) ps)"

text \<open>In exact arithmetic the regular points are the multiples of the interval below the
  duration.\<close>

definition regularPoints :: "real \<Rightarrow> real \<Rightarrow> real list" where
  "regularPoints dur interval = map (\<lambda>k. real k * interval) [0..<nat \<lceil>dur / interval\<rceil>]"

section \<open>Hit regions in the spec's words\<close>

definition inScaleStrip :: "options \<Rightarrow> real \<Rightarrow> bool" where
  "inScaleStrip opts y = (0 \<le> y \<and> y < scaleHeight opts)"

definition inFrameStrip :: "options \<Rightarrow> real \<Rightarrow> bool" where
  "inFrameStrip opts y = (scaleHeight opts \<le> y \<and> y \<le> scaleHeight opts + frameHeight opts)"

text \<open>Within \<open>handleWidth\<close> pixels to the left of the selection's start edge.\<close>

definition inStartHandle :: "options \<Rightarrow> canvas \<Rightarrow> real \<Rightarrow> bool" where
  "inStartHandle opts c x =
     (let edge = timeToPixel opts (offsetWidth c) (range_start (selectedRange opts))
      in edge - handleWidth opts \<le> x \<and> x \<le> edge)"

text \<open>Within \<open>handleWidth\<close> pixels to the right of the selection's end edge.\<close>

definition inEndHandle :: "options \<Rightarrow> canvas \<Rightarrow> real \<Rightarrow> bool" where
  "inEndHandle opts c x =
     (let edge = timeToPixel opts (offsetWidth c) (range_end (selectedRange opts))
      in edge \<le> x \<and> x \<le> edge + handleWidth opts)"

definition hitTestSpec :: "options \<Rightarrow> canvas \<Rightarrow> real \<Rightarrow> real \<Rightarrow> HitAreaType option" where
  "hitTestSpec opts c clientX clientY =
     (let x = clientX - rect_left c;
          y = clientY - rect_top c
      in if inScaleStrip opts y then Some (Hit DragCursor)
         else if inFrameStrip opts y
         then (if inStartHandle opts c x then Some (Hit DragStart)
               else if inEndHandle opts c x then Some (Hit DragEnd)
               else Some (Hit DragCursor))
         else None)"

section \<open>Predicates and runs used in the statements about the extractor\<close>

fun isAwaitSeek :: "pending \<Rightarrow> bool" where
  "isAwaitSeek (AwaitSeek i tm) = True"
| "isAwaitSeek _ = False"

text \<open>What an extraction can still hand over once its extractor is disposed: nothing; the
  progress call of the one pending capture and then the frames \<open>fs\<close> as result; or the
  error of that capture.\<close>

definition stoppedOutputs :: "out_event list \<Rightarrow> VideoFrame list \<Rightarrow> bool" where
  "stoppedOutputs outs fs =
     (outs = [] \<or> (\<exists>p. outs = [Progress p, Complete fs]) \<or>
      (\<exists>tm. outs = [Failed (CaptureFailed tm)]) \<or> outs = [Failed DrawFailed])"

text \<open>A task started by the hook, after the steps \<open>es1\<close>; and the run of the steps \<open>es2\<close>
  that follows a call of \<open>dispose()\<close> on it.\<close>

definition beforeDispose :: "engine \<Rightarrow> hookOptions \<Rightarrow> source \<Rightarrow> tevent list \<Rightarrow> task" where
  "beforeDispose eng opts src es1 = fst (runTask eng es1 (fst (startTask eng opts src)))"

definition afterDispose ::
  "engine \<Rightarrow> hookOptions \<Rightarrow> source \<Rightarrow> tevent list \<Rightarrow> tevent list \<Rightarrow> task \<times> out_event list" where
  "afterDispose eng opts src es1 es2 =
     runTask eng es2 (fst (tstep eng DisposeCall (beforeDispose eng opts src es1)))"

text \<open>A disposed extractor with no load listeners and no blob URL.\<close>

definition quiet :: "extractor \<Rightarrow> bool" where
  "quiet x = (isDisposed x \<and> loadHandlers x = None \<and> blobUrl x = None)"

text \<open>Every blob URL created so far has been revoked once, except the current one, which has
  not been revoked.\<close>

definition ledger_ok :: "extractor \<Rightarrow> bool" where
  "ledger_ok x =
     (distinct (blobsRevoked x) \<and>
      (case blobUrl x of
         None \<Rightarrow> set (blobsRevoked x) = {..<blobsCreated x}
       | Some u \<Rightarrow> u < blobsCreated x \<and> u \<notin> set (blobsRevoked x) \<and>
                  insert u (set (blobsRevoked x)) = {..<blobsCreated x}))"

section \<open>Example inputs\<close>

text \<open>The component's default layout: width 420, scale strip 27, frame strip 50, handles 16,
  minimum duration 0.1; a clip of 10 seconds with the range 2 to 8 selected.\<close>

definition demo_opts :: options where
  "demo_opts = \<lparr>duration = 10, currentTime = 0,
      selectedRange = \<lparr>range_start = 2, range_end = 8\<rparr>,
      scaleHeight = 27, frameHeight = 50, handleWidth = 16, minDuration = 0.1,
      disabled = False\<rparr>"

definition demo_canvas :: canvas where
  "demo_canvas = \<lparr>rect_left = 0, rect_top = 0, offsetWidth = 420\<rparr>"

definition idle :: dragState where
  "idle = \<lparr>dragTypeRef = None, startXRef = 0,
            startRangeRef = \<lparr>range_start = 0, range_end = 0\<rparr>,
            startTimeRef = 0, isDragging = False, dragType = None\<rparr>"


text \<open>The range 2 to 8 with the minimum duration 1.\<close>

definition scenario_opts :: options where
  "scenario_opts = demo_opts\<lparr>minDuration := 1\<rparr>"

text \<open>A clip of 10 seconds sampled every 5 seconds, at a same-origin URL.\<close>

definition demo_src :: source where
  "demo_src = Url ''/video.mp4''"

definition demo_hook_opts :: hookOptions where
  "demo_hook_opts = \<lparr>videoSrc = Some demo_src, durationProp = Some 10, frameInterval = 5\<rparr>"

text \<open>The first extraction loads its video and waits for its first seek; then a second
  extraction is started.\<close>

definition second_started :: "hevent list" where
  "second_started =
     [Extract demo_hook_opts, Video 0 (LoadedMetadata 10), Extract demo_hook_opts]"

text \<open>The seek of the first extraction then completes, and the second extraction runs to
  its end.\<close>

definition superseded_trace :: "hevent list" where
  "superseded_trace =
     second_started @
     [Video 0 (Seeked (Some ''a0'')),
      Video 1 (LoadedMetadata 10), Video 1 (Seeked (Some ''b0'')),
      Video 1 (Seeked (Some ''b1'')), Video 1 (Seeked (Some ''b2''))]"

text \<open>Three frames, the second with image data that does not decode.\<close>

definition demo_frames :: "VideoFrame list" where
  "demo_frames =
     [\<lparr>frame_time = 0, imageData = ''a''\<rparr>, \<lparr>frame_time = 5, imageData = ''bad''\<rparr>,
      \<lparr>frame_time = 9.99, imageData = ''c''\<rparr>]"

definition demo_render :: renderOptions where
  "demo_render = \<lparr>r_frames = demo_frames, r_width = 420, r_scaleHeight = 27,
      r_frameHeight = 50, r_handleWidth = 16, r_showTimeScale = True,
      r_backgroundColor = ''transparent''\<rparr>"

definition decodes_but_bad :: "string \<Rightarrow> bool" where
  "decodes_but_bad s = (s \<noteq> ''bad'')"

section \<open>Lemmas\<close>

lemma roundToDecimals_2_close: "\<bar>roundToDecimals v 2 - v\<bar> \<le> 0.005"
proof -
  have "\<bar>real_of_int (round (v * 100)) - v * 100\<bar> \<le> 1 / 2"
    by (rule of_int_round_abs_le)
  then have "\<bar>real_of_int (round (v * 100)) / 100 - v\<bar> \<le> 1 / 200"
    by (simp add: field_simps abs_le_iff)
  then show ?thesis by (simp add: roundToDecimals_def)
qed

lemma generateLoop_sound:
  "generateLoop eng dur interval t acc = Inr ps \<Longrightarrow>
     \<exists>reg. ps = acc @ reg \<and> stepsFrom eng interval dur t reg"
proof (induction eng dur interval t acc rule: generateLoop.induct)
  case (1 eng dur interval t points)
  show ?case
  proof (cases "t < dur")
    case False
    then have "ps = points" using "1.prems" by (simp add: generateLoop.simps)
    then show ?thesis using False by (intro exI [of _ "[]"]) simp
  next
    case True
    then have room: "length points < maxArrayLength eng"
      and rec: "generateLoop eng dur interval (fadd eng t interval) (points @ [t]) = Inr ps"
      using "1.prems" by (simp_all add: generateLoop.simps [of eng dur interval t points] split: if_splits)
    from "1.IH" [OF True room rec] obtain reg
      where "ps = (points @ [t]) @ reg" "stepsFrom eng interval dur (fadd eng t interval) reg"
      by blast
    then show ?thesis using True by (intro exI [of _ "t # reg"]) simp
  qed
qed

lemma generateLoop_error:
  "generateLoop eng dur interval t acc = Inl e \<Longrightarrow> e = RangeError"
proof (induction eng dur interval t acc rule: generateLoop.induct)
  case (1 eng dur interval t points)
  then show ?case
    by (simp add: generateLoop.simps [of eng dur interval t points] split: if_splits)
qed

lemma generateLoop_complete:
  "stepsFrom eng interval dur t reg \<Longrightarrow> length acc \<le> maxArrayLength eng \<Longrightarrow>
     generateLoop eng dur interval t acc =
       (if length acc + length reg \<le> maxArrayLength eng then Inr (acc @ reg) else Inl RangeError)"
proof (induction reg arbitrary: t acc)
  case Nil
  then show ?case by (simp add: generateLoop.simps [of eng dur interval t acc])
next
  case (Cons p reg)
  then have p: "p = t" and lt: "t < dur"
    and st: "stepsFrom eng interval dur (fadd eng t interval) reg" by simp_all
  show ?case
  proof (cases "length acc < maxArrayLength eng")
    case True
    then have "length (acc @ [t]) \<le> maxArrayLength eng" by simp
    from Cons.IH [OF st this] True lt p show ?thesis
      by (simp add: generateLoop.simps [of eng dur interval t acc])
  next
    case False
    then show ?thesis using lt by (simp add: generateLoop.simps [of eng dur interval t acc])
  qed
qed

lemma stepsFrom_no_stall:
  "fadd eng t interval = t \<Longrightarrow> t < dur \<Longrightarrow> \<not> stepsFrom eng interval dur t reg"
  by (induction reg) auto

lemma stepsFrom_below: "stepsFrom eng interval dur t reg \<Longrightarrow> p \<in> set reg \<Longrightarrow> p < dur"
  by (induction reg arbitrary: t) auto

lemma stepsFrom_hd: "stepsFrom eng interval dur t reg \<Longrightarrow> t < dur \<Longrightarrow> reg \<noteq> [] \<and> hd reg = t"
  by (cases reg) auto

lemma stepsFrom_sorted:
  assumes mono: "\<forall>s. s \<le> fadd eng s interval"
  shows "stepsFrom eng interval dur t reg \<Longrightarrow> sorted_wrt (<) reg \<and> (\<forall>p \<in> set reg. t \<le> p)"
proof (induction reg arbitrary: t)
  case Nil
  then show ?case by simp
next
  case (Cons p reg)
  then have p: "p = t" and lt: "t < dur"
    and st: "stepsFrom eng interval dur (fadd eng t interval) reg" by simp_all
  from Cons.IH [OF st] have s: "sorted_wrt (<) reg" and ge: "\<forall>q \<in> set reg. fadd eng t interval \<le> q"
    by simp_all
  have "fadd eng t interval \<noteq> t" if "reg \<noteq> []"
    using stepsFrom_no_stall [of eng t interval dur reg] st lt by auto
  moreover have "t \<le> fadd eng t interval" using mono by simp
  ultimately have less: "t < q" if "q \<in> set reg" for q
    using ge that by (cases "fadd eng t interval = t") force+
  then have "t \<le> q" if "q \<in> set reg" for q using less [OF that] by simp
  then show ?case using s p less by simp
qed

lemma stepsFrom_stuck:
  assumes down: "\<forall>s. fadd eng s interval \<le> s"
  shows "t < dur \<Longrightarrow> \<not> stepsFrom eng interval dur t reg"
proof (induction reg arbitrary: t)
  case Nil
  then show ?case by simp
next
  case (Cons p reg)
  have "fadd eng t interval < dur" using down Cons.prems by (meson le_less_trans)
  from Cons.IH [OF this] show ?case by simp
qed

lemma stepsFrom_exact:
  assumes "0 < interval"
  shows "stepsFrom exact_engine interval dur t
           (map (\<lambda>k. t + real k * interval) [0..<nat \<lceil>(dur - t) / interval\<rceil>])"
proof (induction "nat \<lceil>(dur - t) / interval\<rceil>" arbitrary: t)
  case 0
  then have "(dur - t) / interval \<le> 0" by (simp add: ceiling_le_zero)
  then have "\<not> t < dur" using assms by (simp add: divide_le_0_iff)
  then show ?case using 0 by simp
next
  case (Suc n)
  then have "0 < \<lceil>(dur - t) / interval\<rceil>" by linarith
  then have "0 < (dur - t) / interval" by (simp add: zero_less_ceiling)
  then have lt: "t < dur" using assms by (simp add: zero_less_divide_iff)
  have "(dur - (t + interval)) / interval = (dur - t) / interval - 1"
    using assms by (simp add: field_simps)
  then have n: "n = nat \<lceil>(dur - (t + interval)) / interval\<rceil>"
    using Suc.hyps(2) by simp
  have "map (\<lambda>k. t + real k * interval) [0..<Suc n]
          = t # map (\<lambda>k. (t + interval) + real k * interval) [0..<n]"
    by (simp add: map_upt_Suc algebra_simps del: upt_Suc)
  moreover have "stepsFrom exact_engine interval dur (t + interval)
                   (map (\<lambda>k. (t + interval) + real k * interval) [0..<n])"
    using Suc.hyps(1) [OF n] n by simp
  ultimately show ?case using lt Suc.hyps(2) [symmetric] by (simp add: exact_engine_def)
qed

lemma stepsFrom_regularPoints:
  "0 < interval \<Longrightarrow> stepsFrom exact_engine interval dur 0 (regularPoints dur interval)"
  using stepsFrom_exact [of interval dur 0] by (simp add: regularPoints_def)

lemma generateTimePoints_char:
  assumes "0 < dur" and "stepsFrom eng interval dur 0 reg"
  shows "generateTimePoints eng dur interval =
           (if length reg + (if last reg < fsub eng dur 0.1 then 1 else 0) \<le> maxArrayLength eng
            then Inr (reg @ (if last reg < fsub eng dur 0.1 then [fsub eng dur 0.01] else []))
            else Inl RangeError)"
proof -
  have ne: "reg \<noteq> []" using stepsFrom_hd [OF assms(2,1)] by simp
  have "generateLoop eng dur interval 0 [] =
          (if length reg \<le> maxArrayLength eng then Inr reg else Inl RangeError)"
    using generateLoop_complete [OF assms(2), of "[]"] by simp
  then show ?thesis using ne by (auto simp: generateTimePoints_def)
qed

lemma generateTimePoints_result:
  "generateTimePoints eng dur interval = Inl RangeError \<or>
   (\<exists>reg. stepsFrom eng interval dur 0 reg \<and>
      (generateTimePoints eng dur interval = Inr reg \<or>
       (reg \<noteq> [] \<and> last reg < fsub eng dur 0.1 \<and>
        generateTimePoints eng dur interval = Inr (reg @ [fsub eng dur 0.01]))))"
proof (cases "generateLoop eng dur interval 0 []")
  case (Inl e)
  then show ?thesis using generateLoop_error [OF Inl] by (simp add: generateTimePoints_def)
next
  case (Inr ps)
  from generateLoop_sound [OF Inr] have "stepsFrom eng interval dur 0 ps" by simp
  then show ?thesis using Inr by (auto simp: generateTimePoints_def)
qed

lemma length_regularPoints: "length (regularPoints dur interval) = nat \<lceil>dur / interval\<rceil>"
  by (simp add: regularPoints_def)


lemma scenario_time_7_5: "pixelToTime scenario_opts (Some demo_canvas) 307 = Num 7.5"
  by (simp add: pixelToTime_def scenario_opts_def demo_opts_def demo_canvas_def
      roundToDecimals_def Let_def round_def)

lemma scenario_time_1: "pixelToTime scenario_opts (Some demo_canvas) 54.8 = Num 1"
  by (simp add: pixelToTime_def scenario_opts_def demo_opts_def demo_canvas_def
      roundToDecimals_def Let_def round_def)

lemma quiet_dispose: "quiet (dispose x)"
  by (simp add: quiet_def dispose_def revokeBlobUrl_def cleanupListeners_def split: option.splits)

lemma ledger_ok_new: "ledger_ok newExtractor"
  by (simp add: ledger_ok_def newExtractor_def)

lemma ledger_ok_revoke: "ledger_ok x \<Longrightarrow> ledger_ok (revokeBlobUrl x)"
  by (auto simp: ledger_ok_def revokeBlobUrl_def split: option.splits)

lemma ledger_ok_dispose: "ledger_ok x \<Longrightarrow> ledger_ok (dispose x)"
  by (auto simp: ledger_ok_def dispose_def revokeBlobUrl_def cleanupListeners_def split: option.splits)

lemma blobUrl_revoke: "blobUrl (revokeBlobUrl x) = None"
  by (simp add: revokeBlobUrl_def split: option.splits)

lemma ledger_ok_setVideoSrc:
  assumes "ledger_ok y" "blobUrl y = None"
  shows "ledger_ok (setVideoSrc y src)"
proof (cases src)
  case (Url s)
  then show ?thesis using assms by (simp add: ledger_ok_def setVideoSrc_def)
next
  case (File f)
  from assms have d: "distinct (blobsRevoked y)" and s: "set (blobsRevoked y) = {..<blobsCreated y}"
    by (simp_all add: ledger_ok_def)
  show ?thesis using d s File by (simp add: ledger_ok_def setVideoSrc_def lessThan_Suc)
qed

lemma ledger_ok_handlers: "ledger_ok (x\<lparr>loadHandlers := h\<rparr>) = ledger_ok x"
  by (simp add: ledger_ok_def cong: option.case_cong)

lemma ledger_ok_loadVideo:
  assumes "ledger_ok x" "loadVideo x src = Inr (x', b)"
  shows "ledger_ok x'"
proof (cases "isDisposed x \<or> (currentSrc x = Some src \<and> video_readyState1 x)")
  case True
  then show ?thesis using assms by (auto simp: loadVideo_def split: if_splits)
next
  case False
  let ?y = "(revokeBlobUrl (cleanupListeners x))\<lparr>loadHandlers := Some src\<rparr>"
  have x': "x' = setVideoSrc ?y src" using False assms(2) by (auto simp: loadVideo_def)
  have "ledger_ok (cleanupListeners x)" using assms(1) by (simp add: ledger_ok_def cleanupListeners_def cong: option.case_cong)
  then have "ledger_ok ?y" by (simp add: ledger_ok_handlers ledger_ok_revoke)
  moreover have "blobUrl ?y = None" by (simp add: blobUrl_revoke)
  ultimately show ?thesis unfolding x' by (rule ledger_ok_setVideoSrc)
qed

lemma loopHead_ext: "ext (fst (loopHead t i)) = ext t"
  by (simp add: loopHead_def)

lemma ledger_ok_extractFrames:
  assumes "ledger_ok (ext t)"
  shows "ledger_ok (ext (fst (extractFrames t)))"
proof (cases "loadVideo (ext t) (task_src t)")
  case (Inl e)
  then show ?thesis using assms by (simp add: extractFrames_def)
next
  case (Inr p)
  obtain x b where p: "p = (x, b)" by (cases p)
  have "ledger_ok x" using ledger_ok_loadVideo [OF assms] Inr p by simp
  then show ?thesis using assms Inr p by (simp add: extractFrames_def loopHead_ext)
qed

lemma ledger_ok_withDuration:
  "ledger_ok (ext t) \<Longrightarrow> ledger_ok (ext (fst (withDuration eng t d)))"
  by (cases "generateTimePoints eng d (task_interval t)")
     (simp_all add: withDuration_def ledger_ok_extractFrames)

lemma ledger_ok_upd [simp]:
  "ledger_ok (x\<lparr>video_readyState1 := a, video_duration := b\<rparr>) = ledger_ok x"
  "ledger_ok (cleanupListeners x) = ledger_ok x"
  "ledger_ok (x\<lparr>currentSrc := c\<rparr>) = ledger_ok x"
  by (simp_all add: ledger_ok_def cleanupListeners_def cong: option.case_cong)

lemma ledger_ok_taskStep:
  assumes "ledger_ok (ext t)"
  shows "ledger_ok (ext (fst (taskStep eng ev t)))"
proof (cases ev)
  case (LoadedMetadata d)
  show ?thesis
  proof (cases "loadHandlers (ext t)")
    case None
    then show ?thesis using assms LoadedMetadata by (simp add: taskStep_def)
  next
    case (Some src)
    then show ?thesis using assms LoadedMetadata
      by (cases "pend t") (simp_all add: taskStep_def Let_def loopHead_ext ledger_ok_withDuration)
  qed
next
  case VideoError
  then show ?thesis using assms
    by (cases "loadHandlers (ext t)"; cases "pend t") (simp_all add: taskStep_def Let_def)
next
  case (Seeked drawn)
  then show ?thesis using assms
    by (cases "pend t"; cases drawn) (simp_all add: taskStep_def Let_def loopHead_ext)
qed

lemma ledger_ok_tstep: "ledger_ok (ext t) \<Longrightarrow> ledger_ok (ext (fst (tstep eng e t)))"
  by (cases e) (auto simp: tstep_def ledger_ok_taskStep ledger_ok_dispose)

lemma ledger_ok_runTask: "ledger_ok (ext t) \<Longrightarrow> ledger_ok (ext (fst (runTask eng es t)))"
  by (induction es arbitrary: t) (auto simp: Let_def ledger_ok_tstep)

lemma ledger_ok_viaGetDuration:
  assumes "ledger_ok (ext t)"
  shows "ledger_ok (ext (fst (viaGetDuration eng t)))"
proof (cases "loadVideo (ext t) (task_src t)")
  case (Inl e)
  then show ?thesis using assms by (simp add: viaGetDuration_def)
next
  case (Inr p)
  obtain x b where p: "p = (x, b)" by (cases p)
  have "ledger_ok x" using ledger_ok_loadVideo [OF assms] Inr p by simp
  then show ?thesis using Inr p by (simp add: viaGetDuration_def ledger_ok_withDuration)
qed

lemma ledger_ok_startTask: "ledger_ok (ext (fst (startTask eng opts src)))"
  by (cases "durationProp opts")
     (simp_all add: startTask_def Let_def ledger_ok_new ledger_ok_viaGetDuration
        ledger_ok_withDuration)

lemma dispose_quiet_id: "quiet x \<Longrightarrow> quiet (dispose x) \<and> blobsRevoked (dispose x) = blobsRevoked x
   \<and> blobsCreated (dispose x) = blobsCreated x"
  by (simp add: quiet_def dispose_def revokeBlobUrl_def cleanupListeners_def)

lemma quiet_taskStep:
  assumes "quiet (ext t)"
  shows "quiet (ext (fst (taskStep eng ev t))) \<and>
         blobsRevoked (ext (fst (taskStep eng ev t))) = blobsRevoked (ext t) \<and>
         blobsCreated (ext (fst (taskStep eng ev t))) = blobsCreated (ext t)"
proof (cases ev)
  case (LoadedMetadata d)
  then show ?thesis using assms by (simp add: taskStep_def quiet_def)
next
  case VideoError
  then show ?thesis using assms by (cases "pend t") (simp_all add: taskStep_def quiet_def)
next
  case (Seeked drawn)
  then show ?thesis using assms
    by (cases "pend t"; cases drawn) (simp_all add: taskStep_def quiet_def Let_def loopHead_ext)
qed

lemma quiet_tstep:
  assumes "quiet (ext t)"
  shows "quiet (ext (fst (tstep eng e t))) \<and>
         blobsRevoked (ext (fst (tstep eng e t))) = blobsRevoked (ext t) \<and>
         blobsCreated (ext (fst (tstep eng e t))) = blobsCreated (ext t)"
  using assms quiet_taskStep [OF assms] dispose_quiet_id [of "ext t"]
  by (cases e) (simp_all add: tstep_def)

lemma settled_taskStep:
  assumes "quiet (ext t)" "\<not> isAwaitSeek (pend t)"
  shows "snd (taskStep eng ev t) = [] \<and> frames (fst (taskStep eng ev t)) = frames t \<and>
         pend (fst (taskStep eng ev t)) = pend t"
proof (cases ev)
  case (LoadedMetadata d)
  then show ?thesis using assms by (simp add: taskStep_def quiet_def)
next
  case VideoError
  then show ?thesis using assms by (cases "pend t") (simp_all add: taskStep_def quiet_def)
next
  case (Seeked drawn)
  then show ?thesis using assms by (cases "pend t") (simp_all add: taskStep_def)
qed

lemma settled_tstep:
  assumes "quiet (ext t)" "\<not> isAwaitSeek (pend t)"
  shows "snd (tstep eng e t) = [] \<and> frames (fst (tstep eng e t)) = frames t \<and>
         pend (fst (tstep eng e t)) = pend t"
  using settled_taskStep [OF assms] by (cases e) (simp_all add: tstep_def)

lemma loopHead_disposed:
  "isDisposed (ext t) \<Longrightarrow> loopHead t i = (t\<lparr>pend := Returned\<rparr>, [Complete (frames t)])"
  by (simp add: loopHead_def)

lemma seeking_taskStep:
  assumes "quiet (ext t)" "isAwaitSeek (pend t)"
  shows "(snd (taskStep eng ev t) = [] \<and> frames (fst (taskStep eng ev t)) = frames t \<and>
          pend (fst (taskStep eng ev t)) = pend t) \<or>
         (\<not> isAwaitSeek (pend (fst (taskStep eng ev t))) \<and>
          length (frames (fst (taskStep eng ev t))) \<le> length (frames t) + 1 \<and>
          stoppedOutputs (snd (taskStep eng ev t)) (frames (fst (taskStep eng ev t))))"
proof -
  from assms(2) obtain i tm where p: "pend t = AwaitSeek i tm" by (cases "pend t") auto
  have d: "isDisposed (ext t)" "loadHandlers (ext t) = None" using assms(1) by (simp_all add: quiet_def)
  show ?thesis
  proof (cases ev)
    case (LoadedMetadata d)
    then show ?thesis using d by (simp add: taskStep_def)
  next
    case VideoError
    then show ?thesis using d p by (simp add: taskStep_def stoppedOutputs_def)
  next
    case (Seeked drawn)
    then show ?thesis using d p
      by (cases drawn) (simp_all add: taskStep_def Let_def loopHead_disposed stoppedOutputs_def)
  qed
qed

lemma seeking_tstep:
  assumes "quiet (ext t)" "isAwaitSeek (pend t)"
  shows "(snd (tstep eng e t) = [] \<and> frames (fst (tstep eng e t)) = frames t \<and>
          pend (fst (tstep eng e t)) = pend t) \<or>
         (\<not> isAwaitSeek (pend (fst (tstep eng e t))) \<and>
          length (frames (fst (tstep eng e t))) \<le> length (frames t) + 1 \<and>
          stoppedOutputs (snd (tstep eng e t)) (frames (fst (tstep eng e t))))"
  using seeking_taskStep [OF assms] by (cases e) (simp_all add: tstep_def)

lemma quiet_runTask:
  "quiet (ext t) \<Longrightarrow>
     quiet (ext (fst (runTask eng es t))) \<and>
     blobsRevoked (ext (fst (runTask eng es t))) = blobsRevoked (ext t) \<and>
     blobsCreated (ext (fst (runTask eng es t))) = blobsCreated (ext t)"
proof (induction es arbitrary: t)
  case Nil
  then show ?case by simp
next
  case (Cons e es)
  from quiet_tstep [OF Cons.prems, where eng = eng and e = e] Cons.IH [of "fst (tstep eng e t)"]
  show ?case by (simp add: Let_def)
qed

lemma settled_runTask:
  "quiet (ext t) \<Longrightarrow> \<not> isAwaitSeek (pend t) \<Longrightarrow>
     snd (runTask eng es t) = [] \<and> frames (fst (runTask eng es t)) = frames t"
proof (induction es arbitrary: t)
  case Nil
  then show ?case by simp
next
  case (Cons e es)
  from settled_tstep [OF Cons.prems, where eng = eng and e = e]
    quiet_tstep [OF Cons.prems(1), where eng = eng and e = e] Cons.prems(2)
    Cons.IH [of "fst (tstep eng e t)"]
  show ?case by (simp add: Let_def)
qed

lemma seeking_runTask:
  "quiet (ext t) \<Longrightarrow>
     length (frames (fst (runTask eng es t))) \<le> length (frames t) + 1 \<and>
     stoppedOutputs (snd (runTask eng es t)) (frames (fst (runTask eng es t)))"
proof (induction es arbitrary: t)
  case Nil
  then show ?case by (simp add: stoppedOutputs_def)
next
  case (Cons e es)
  let ?t1 = "fst (tstep eng e t)"
  have q1: "quiet (ext ?t1)"
    using quiet_tstep [OF Cons.prems, where eng = eng and e = e] by simp
  show ?case
  proof (cases "isAwaitSeek (pend t)")
    case False
    from settled_runTask [OF Cons.prems False, where es = "e # es" and eng = eng]
    show ?thesis by (simp add: stoppedOutputs_def)
  next
    case True
    from seeking_tstep [OF Cons.prems True, where e = e and eng = eng]
    show ?thesis
    proof
      assume "snd (tstep eng e t) = [] \<and> frames ?t1 = frames t \<and> pend ?t1 = pend t"
      then show ?thesis using Cons.IH [OF q1] by (simp add: Let_def)
    next
      assume a: "\<not> isAwaitSeek (pend ?t1) \<and> length (frames ?t1) \<le> length (frames t) + 1 \<and>
          stoppedOutputs (snd (tstep eng e t)) (frames ?t1)"
      then have "snd (runTask eng es ?t1) = [] \<and> frames (fst (runTask eng es ?t1)) = frames ?t1"
        using settled_runTask [OF q1] by blast
      then show ?thesis using a by (simp add: Let_def)
    qed
  qed
qed

lemma deliver_aborted: "abortRef h \<Longrightarrow> foldl (deliver k) h outs = h"
  by (induction outs) (simp_all add: deliver_def)

lemma aborted_video_step:
  assumes "abortRef h"
  shows "abortRef (hookStep eng h (Video k ev)) \<and> delivered (hookStep eng h (Video k ev)) = delivered h"
  using assms by (simp add: hookStep_def Let_def deliver_aborted)

lemma aborted_run:
  "abortRef h \<Longrightarrow>
     delivered (runHook eng (map (\<lambda>(k, ev). Video k ev) ves) h) = delivered h"
proof (induction ves arbitrary: h)
  case Nil
  then show ?case by (simp add: runHook_def)
next
  case (Cons a ves)
  obtain k ev where a: "a = (k, ev)" by (cases a)
  from aborted_video_step [OF Cons.prems, where eng = eng and k = k and ev = ev] Cons.IH [of "hookStep eng h (Video k ev)"]
  show ?case using a by (simp add: runHook_def)
qed

lemma cleanup_aborts:
  "abortRef (hookStep eng h Cleanup) \<and> delivered (hookStep eng h Cleanup) = delivered h"
  by (simp add: hookStep_def hookCleanup_def disposeCurrent_def split: option.splits)

lemma disposeCurrent_same:
  "length (tasks (disposeCurrent h)) = length (tasks h) \<and>
   delivered (disposeCurrent h) = delivered h \<and> abortRef (disposeCurrent h) = abortRef h"
  by (simp add: disposeCurrent_def split: option.splits)

lemma hookExtract_error:
  assumes "generateTimePoints eng dur interval = Inl e" "dur \<noteq> 0" "src \<noteq> Url []"
  shows "delivered (hookExtract eng \<lparr>videoSrc = Some src, durationProp = Some dur,
                                       frameInterval = interval\<rparr> h)
           = delivered h @ [OnError (length (tasks h)) e]"
  using assms disposeCurrent_same [of "h\<lparr>abortRef := True\<rparr>"]
  by (simp add: hookExtract_def startTask_def withDuration_def deliver_def Let_def)

lemma generateTimePoints_demo: "generateTimePoints exact_engine 10 5 = Inr [0, 5, 9.99]"
  by (simp add: generateTimePoints_def generateLoop.simps exact_engine_def)

lemmas hook_defs = runHook_def hookStep_def hookExtract_def hookCleanup_def disposeCurrent_def
  startTask_def viaGetDuration_def withDuration_def extractFrames_def loadVideo_def setVideoSrc_def
  revokeBlobUrl_def cleanupListeners_def dispose_def newExtractor_def newHook_def
  taskStep_def loopHead_def deliver_def tstep_def Let_def


section \<open>Drag controller: range constraints\<close>




text \<open>
  C4: at a pointer position whose time is the number \<open>t\<close>, \<open>handleMove\<close> while the start
  handle is dragged takes \<open>max 0 (min t (end - minDuration))\<close> as the new start; it emits
  the range update and then the time update, both with the new start, if that differs
  from the current start, and nothing otherwise. While the end handle is dragged the new
  end is \<open>min duration (max t (start + minDuration))\<close>, likewise. The difference and the sum
  are those the code computes. With the range 2 to 8, the minimum duration 1 and the
  time 7.5 (where \<open>8 - 1\<close> is 7), the start handle emits the range 7 to 8 and the time 7.
\<close>

theorem handle_move_formula:
  assumes "pixelToTime opts cv clientX = Num t"
  shows "(dragTypeRef st = Some DragStart \<longrightarrow>
            handleMove eng opts cv st clientX =
              (let c = max 0 (min t (fsub eng (range_end (selectedRange opts)) (minDuration opts)))
               in if c \<noteq> range_start (selectedRange opts)
                  then [RangeChange (Num c) (Num (range_end (selectedRange opts))),
                        TimeChange (Num c)]
                  else [])) \<and>
         (dragTypeRef st = Some DragEnd \<longrightarrow>
            handleMove eng opts cv st clientX =
              (let c = min (duration opts)
                         (max t (fadd eng (range_start (selectedRange opts)) (minDuration opts)))
               in if c \<noteq> range_end (selectedRange opts)
                  then [RangeChange (Num (range_start (selectedRange opts))) (Num c),
                        TimeChange (Num c)]
                  else [])) \<and>
         (dragTypeRef st = Some DragStart \<and>
          selectedRange opts = \<lparr>range_start = 2, range_end = 8\<rparr> \<and> minDuration opts = 1 \<and>
          t = 7.5 \<and> fsub eng 8 1 = 7 \<longrightarrow>
            handleMove eng opts cv st clientX = [RangeChange (Num 7) (Num 8), TimeChange (Num 7)])"
  using assms by (simp add: handleMove_def moveStep_def Let_def)

theorem handle_move_formula_witness:
  "pixelToTime scenario_opts (Some demo_canvas) 307 = Num 7.5 \<and>
   fsub exact_engine 8 1 = 7 \<and>
   handleMove exact_engine scenario_opts (Some demo_canvas)
       (idle\<lparr>dragTypeRef := Some DragStart\<rparr>) 307
     = [RangeChange (Num 7) (Num 8), TimeChange (Num 7)] \<and>
   pixelToTime scenario_opts (Some demo_canvas) 54.8 = Num 1 \<and>
   handleMove exact_engine scenario_opts (Some demo_canvas)
       (idle\<lparr>dragTypeRef := Some DragEnd\<rparr>) 54.8
     = [RangeChange (Num 2) (Num 3), TimeChange (Num 3)]"
  using handle_move_formula [OF scenario_time_7_5,
          of "idle\<lparr>dragTypeRef := Some DragStart\<rparr>" exact_engine]
        handle_move_formula [OF scenario_time_1,
          of "idle\<lparr>dragTypeRef := Some DragEnd\<rparr>" exact_engine]
        scenario_time_7_5 scenario_time_1
  by (simp add: scenario_opts_def demo_opts_def exact_engine_def)

text \<open>
  C10: while dragging the start or the end handle, a move emits a time update exactly when
  it emits a range update, and it emits nothing exactly when the clamped candidate equals
  the current edge. This holds whatever the arithmetic of the engine.
\<close>

theorem handle_move_time_iff_range:
  "((\<exists>n. TimeChange n \<in> set (moveStep eng opts DragStart t))
      = (\<exists>a b. RangeChange a b \<in> set (moveStep eng opts DragStart t))) \<and>
   ((\<exists>n. TimeChange n \<in> set (moveStep eng opts DragEnd t))
      = (\<exists>a b. RangeChange a b \<in> set (moveStep eng opts DragEnd t))) \<and>
   ((moveStep eng opts DragStart t = [])
      = (max 0 (min t (fsub eng (range_end (selectedRange opts)) (minDuration opts)))
           = range_start (selectedRange opts))) \<and>
   ((moveStep eng opts DragEnd t = [])
      = (min (duration opts)
           (max t (fadd eng (range_start (selectedRange opts)) (minDuration opts)))
           = range_end (selectedRange opts)))"
  by (auto simp: moveStep_def Let_def)

section \<open>Time geometry\<close>

text \<open>
  C6: for \<open>0 \<le> t \<le> duration\<close>, \<open>duration > 0\<close> and a track wider than two handles, the time
  read back by \<open>pixelToTime\<close> at the pixel \<open>timeToPixel t\<close> (taken from the left edge of the
  canvas) is a number within 0.01 of \<open>t\<close>.
\<close>

theorem pixel_time_roundtrip:
  assumes "0 \<le> t" "t \<le> duration opts" "0 < duration opts"
    and "offsetWidth c > 2 * handleWidth opts"
  shows "\<exists>r. pixelToTime opts (Some c) (rect_left c + timeToPixel opts (offsetWidth c) t) = Num r
             \<and> \<bar>r - t\<bar> \<le> 0.01"
proof -
  let ?ew = "offsetWidth c - handleWidth opts * 2"
  have ew: "?ew > 0" using assms by simp
  have "((timeToPixel opts (offsetWidth c) t - handleWidth opts) / ?ew) * duration opts = t"
    using ew assms(3) by (simp add: timeToPixel_def)
  then have "pixelToTime opts (Some c) (rect_left c + timeToPixel opts (offsetWidth c) t)
               = Num (roundToDecimals t 2)"
    using ew assms by (simp add: pixelToTime_def Let_def)
  moreover have "\<bar>roundToDecimals t 2 - t\<bar> \<le> 0.01"
    using roundToDecimals_2_close [of t] by simp
  ultimately show ?thesis by blast
qed

theorem pixel_time_roundtrip_witness:
  "(0::real) \<le> 3.456 \<and> 3.456 \<le> duration demo_opts \<and> 0 < duration demo_opts \<and>
   offsetWidth demo_canvas > 2 * handleWidth demo_opts \<and>
   (\<exists>r. pixelToTime demo_opts (Some demo_canvas)
           (rect_left demo_canvas + timeToPixel demo_opts (offsetWidth demo_canvas) 3.456) = Num r
         \<and> \<bar>r - 3.456\<bar> \<le> 0.01)"
proof -
  have h: "(0::real) \<le> 3.456" "3.456 \<le> duration demo_opts" "0 < duration demo_opts"
    "offsetWidth demo_canvas > 2 * handleWidth demo_opts"
    by (simp_all add: demo_opts_def demo_canvas_def)
  from pixel_time_roundtrip [OF h] h show ?thesis by blast
qed

section \<open>Hit testing\<close>

text \<open>
  C7: on a canvas, with \<open>duration \<noteq> 0\<close>, \<open>detectHitArea\<close> resolves a point in this order: in
  the scale strip, cursor, whatever the horizontal position; otherwise in the frame
  strip, the start handle within \<open>handleWidth\<close> pixels to the left of the start edge, else
  the end handle within \<open>handleWidth\<close> pixels to the right of the end edge, else cursor;
  elsewhere no hit, and then \<open>handleStart\<close> changes no state and calls nothing.
\<close>

theorem hit_test_precedence:
  assumes "duration opts \<noteq> 0"
  shows "detectHitArea opts (Some c) clientX clientY = hitTestSpec opts c clientX clientY \<and>
         (hitTestSpec opts c clientX clientY = None \<longrightarrow>
            handleStart opts (Some c) st clientX clientY = (st, []))"
proof -
  have eq: "detectHitArea opts (Some c) clientX clientY = hitTestSpec opts c clientX clientY"
    using assms
    by (auto simp: detectHitArea_def hitTestSpec_def inScaleStrip_def inFrameStrip_def
        inStartHandle_def inEndHandle_def Let_def)
  then show ?thesis by (simp add: handleStart_def)
qed

theorem hit_test_precedence_witness:
  "duration demo_opts \<noteq> 0 \<and>
   detectHitArea demo_opts (Some demo_canvas) 90 10 = Some (Hit DragCursor) \<and>
   detectHitArea demo_opts (Some demo_canvas) 90 40 = Some (Hit DragStart) \<and>
   detectHitArea demo_opts (Some demo_canvas) 330 40 = Some (Hit DragEnd) \<and>
   detectHitArea demo_opts (Some demo_canvas) 200 40 = Some (Hit DragCursor) \<and>
   detectHitArea demo_opts (Some demo_canvas) 200 100 = None \<and>
   handleStart demo_opts (Some demo_canvas) idle 200 100 = (idle, [])"
proof -
  have d: "duration demo_opts \<noteq> 0" by (simp add: demo_opts_def)
  have s: "hitTestSpec demo_opts demo_canvas 90 10 = Some (Hit DragCursor)"
    "hitTestSpec demo_opts demo_canvas 90 40 = Some (Hit DragStart)"
    "hitTestSpec demo_opts demo_canvas 330 40 = Some (Hit DragEnd)"
    "hitTestSpec demo_opts demo_canvas 200 40 = Some (Hit DragCursor)"
    "hitTestSpec demo_opts demo_canvas 200 100 = None"
    by (simp_all add: hitTestSpec_def inScaleStrip_def inFrameStrip_def inStartHandle_def
        inEndHandle_def timeToPixel_def demo_opts_def demo_canvas_def Let_def)
  show ?thesis
    using d s hit_test_precedence [OF d, of demo_canvas 90 10 idle]
      hit_test_precedence [OF d, of demo_canvas 90 40 idle]
      hit_test_precedence [OF d, of demo_canvas 330 40 idle]
      hit_test_precedence [OF d, of demo_canvas 200 40 idle]
      hit_test_precedence [OF d, of demo_canvas 200 100 idle]
    by simp
qed

section \<open>Time points\<close>

text \<open>
  C5, as stated: for every \<open>duration > 0\<close> and \<open>interval > 0\<close> the result of
  \<open>generateTimePoints\<close> has a point within 0.1 of the duration. It fails where the points do
  not fit in an array: for the duration \<open>2^32\<close> and the interval 1 the loop fills the array
  and \<open>push\<close> throws \<open>RangeError\<close>, so there is no result. The numbers of this run are
  integers below \<open>2^53\<close>, which doubles add exactly.
\<close>

theorem generateTimePoints_counterexample:
  "(0::real) < 4294967296 \<and> (0::real) < 1 \<and>
   generateTimePoints exact_engine 4294967296 1 = Inl RangeError"
proof -
  let ?reg = "regularPoints 4294967296 1"
  have st: "stepsFrom exact_engine 1 4294967296 0 ?reg"
    by (rule stepsFrom_regularPoints) simp
  have len: "length ?reg = 4294967296" by (simp add: length_regularPoints)
  have "\<not> length ?reg + (if last ?reg < fsub exact_engine 4294967296 0.1 then 1 else 0)
          \<le> maxArrayLength exact_engine"
    unfolding len by (simp add: exact_engine_def)
  then have "generateTimePoints exact_engine 4294967296 1 = Inl RangeError"
    using generateTimePoints_char [OF _ st] by simp
  then show ?thesis by simp
qed

text \<open>
  C5, amended: for \<open>duration > 0\<close>, let \<open>reg\<close> be the regular points: 0, then each next point
  the one before plus \<open>interval\<close> as the code adds them, as long as the point is strictly
  below the duration. If \<open>reg\<close>, with one more element when \<open>duration - 0.01\<close> is appended, fits
  in an array, \<open>generateTimePoints\<close> returns \<open>reg\<close> followed by \<open>duration - 0.01\<close> exactly when the
  last regular point is below \<open>duration - 0.1\<close> (both as the code computes them); otherwise
  it throws \<open>RangeError\<close>. The regular points start with 0 and are all below the duration.
  Whenever a list is returned, and the computed \<open>duration - 0.1\<close>, \<open>duration - 0.01\<close> and the
  duration are in this order, the list has a point between the computed \<open>duration - 0.1\<close>
  and the duration. For the duration 10 and the interval 2, where the arithmetic is
  exact, the result is 0, 2, 4, 6, 8, 9.99.
\<close>

theorem generateTimePoints_points:
  assumes "0 < dur" and "stepsFrom eng interval dur 0 reg"
  shows "generateTimePoints eng dur interval =
           (if length reg + (if last reg < fsub eng dur 0.1 then 1 else 0) \<le> maxArrayLength eng
            then Inr (reg @ (if last reg < fsub eng dur 0.1 then [fsub eng dur 0.01] else []))
            else Inl RangeError) \<and>
         hd reg = 0 \<and> (\<forall>p \<in> set reg. p < dur) \<and>
         (\<forall>ps. generateTimePoints eng dur interval = Inr ps \<and>
               fsub eng dur 0.1 \<le> fsub eng dur 0.01 \<and> fsub eng dur 0.01 \<le> dur \<longrightarrow>
               (\<exists>p \<in> set ps. fsub eng dur 0.1 \<le> p \<and> p \<le> dur))"
proof -
  note c = generateTimePoints_char [OF assms]
  have ne: "reg \<noteq> []" and hd: "hd reg = 0" using stepsFrom_hd [OF assms(2,1)] by simp_all
  have below: "\<forall>p \<in> set reg. p < dur" using stepsFrom_below [OF assms(2)] by blast
  have near: "\<exists>p \<in> set ps. fsub eng dur 0.1 \<le> p \<and> p \<le> dur"
    if ps: "generateTimePoints eng dur interval = Inr ps"
      and m: "fsub eng dur 0.1 \<le> fsub eng dur 0.01" "fsub eng dur 0.01 \<le> dur" for ps
  proof (cases "last reg < fsub eng dur 0.1")
    case True
    then have "ps = reg @ [fsub eng dur 0.01]" using ps c by (simp split: if_splits)
    then show ?thesis using m by simp
  next
    case False
    then have "ps = reg" using ps c by (simp split: if_splits)
    moreover have "last reg \<in> set reg" using ne by simp
    moreover have "last reg \<le> dur" using below ne by (simp add: less_imp_le)
    ultimately show ?thesis using False by (intro bexI [of _ "last reg"]) simp_all
  qed
  from c hd below near show ?thesis by blast
qed

theorem generateTimePoints_points_witness:
  "(0::real) < 10 \<and> stepsFrom exact_engine 2 10 0 [0, 2, 4, 6, 8] \<and>
   generateTimePoints exact_engine 10 2 = Inr [0, 2, 4, 6, 8, 9.99] \<and>
   length [0, 2, 4, 6, 8, 9.99 :: real] = 6 \<and>
   fsub exact_engine 10 0.1 \<le> fsub exact_engine 10 0.01 \<and> fsub exact_engine 10 0.01 \<le> 10 \<and>
   (\<exists>p \<in> set [0, 2, 4, 6, 8, 9.99 :: real]. fsub exact_engine 10 0.1 \<le> p \<and> p \<le> 10)"
proof -
  have p: "(0::real) < 10" by simp
  have st: "stepsFrom exact_engine 2 10 0 [0, 2, 4, 6, 8]" by (simp add: exact_engine_def)
  have g: "generateTimePoints exact_engine 10 2 = Inr [0, 2, 4, 6, 8, 9.99]"
    using generateTimePoints_points [OF p st] by (simp add: exact_engine_def)
  have m: "fsub exact_engine 10 0.1 \<le> fsub exact_engine 10 0.01"
    "fsub exact_engine 10 0.01 \<le> 10"
    by (simp_all add: exact_engine_def)
  have e: "\<exists>p \<in> set [0, 2, 4, 6, 8, 9.99 :: real]. fsub exact_engine 10 0.1 \<le> p \<and> p \<le> 10"
    using generateTimePoints_points [OF p st] g m by blast
  have l: "length [0, 2, 4, 6, 8, 9.99 :: real] = 6" by simp
  from p st g l m e show ?thesis by blast
qed

text \<open>
  C9, as stated: for every duration and every \<open>interval > 0\<close>, \<open>generateTimePoints\<close> returns a
  list. It fails where the points do not fit in an array: for the duration \<open>2^33\<close> and the
  interval 2 the loop fills the array and \<open>push\<close> throws \<open>RangeError\<close>.
\<close>

theorem generateTimePoints_terminates_counterexample:
  "(0::real) < 2 \<and> generateTimePoints exact_engine 8589934592 2 = Inl RangeError"
proof -
  let ?reg = "regularPoints 8589934592 2"
  have st: "stepsFrom exact_engine 2 8589934592 0 ?reg"
    by (rule stepsFrom_regularPoints) simp
  have len: "length ?reg = 4294967296" by (simp add: length_regularPoints)
  have "\<not> length ?reg + (if last ?reg < fsub exact_engine 8589934592 0.1 then 1 else 0)
          \<le> maxArrayLength exact_engine"
    unfolding len by (simp add: exact_engine_def)
  then have "generateTimePoints exact_engine 8589934592 2 = Inl RangeError"
    using generateTimePoints_char [OF _ st] by simp
  then show ?thesis by simp
qed

text \<open>
  C9, amended: \<open>generateTimePoints\<close> always ends: it returns a list or throws \<open>RangeError\<close>,
  which it does when the array is full; it returns a list whenever the regular points
  are fewer than the largest array length. A list returned for \<open>interval > 0\<close> is strictly
  ascending (where adding the interval never decreases a number and the computed
  \<open>duration - 0.1\<close> is not above the computed \<open>duration - 0.01\<close>, as in doubles). For a
  duration \<open>\<le> 0\<close> the empty list is returned. For \<open>interval \<le> 0\<close> and a positive duration
  (where adding the interval never increases a number) the loop makes no progress and
  ends only with \<open>RangeError\<close>. Nothing guards the interval: the hook passes \<open>frameInterval\<close> on
  as it is, and when \<open>generateTimePoints\<close> throws in an extraction with a known duration,
  the hook, in whatever state it is, catches the error and calls \<open>onError\<close> with it.
\<close>

theorem generateTimePoints_terminates:
  "(generateTimePoints eng dur interval = Inl RangeError \<or>
      (\<exists>ps. generateTimePoints eng dur interval = Inr ps)) \<and>
   (stepsFrom eng interval dur 0 reg \<and> length reg < maxArrayLength eng \<longrightarrow>
      (\<exists>ps. generateTimePoints eng dur interval = Inr ps)) \<and>
   (0 < interval \<and> (\<forall>t. t \<le> fadd eng t interval) \<and> fsub eng dur 0.1 \<le> fsub eng dur 0.01 \<longrightarrow>
      (\<forall>ps. generateTimePoints eng dur interval = Inr ps \<longrightarrow> sorted_wrt (<) ps)) \<and>
   (dur \<le> 0 \<longrightarrow> generateTimePoints eng dur interval = Inr []) \<and>
   (interval \<le> 0 \<and> 0 < dur \<and> (\<forall>t. fadd eng t interval \<le> t) \<longrightarrow>
      generateTimePoints eng dur interval = Inl RangeError) \<and>
   (generateTimePoints eng dur interval = Inl RangeError \<and> dur \<noteq> 0 \<and> src \<noteq> Url [] \<longrightarrow>
      delivered (hookExtract eng \<lparr>videoSrc = Some src, durationProp = Some dur,
                                    frameInterval = interval\<rparr> h)
        = delivered h @ [OnError (length (tasks h)) RangeError])"
proof (intro conjI impI allI)
  show "generateTimePoints eng dur interval = Inl RangeError \<or>
      (\<exists>ps. generateTimePoints eng dur interval = Inr ps)"
    using generateTimePoints_result [of eng dur interval] by blast
next
  assume a: "stepsFrom eng interval dur 0 reg \<and> length reg < maxArrayLength eng"
  show "\<exists>ps. generateTimePoints eng dur interval = Inr ps"
  proof (cases "0 < dur")
    case True
    from a have "length reg + (if last reg < fsub eng dur 0.1 then 1 else 0) \<le> maxArrayLength eng"
      by simp
    then show ?thesis using generateTimePoints_char [OF True, of eng interval reg] a by simp
  next
    case False
    then show ?thesis
      by (simp add: generateTimePoints_def generateLoop.simps [of eng dur interval 0 "[]"])
  qed
next
  fix ps
  assume h: "0 < interval \<and> (\<forall>t. t \<le> fadd eng t interval) \<and>
             fsub eng dur 0.1 \<le> fsub eng dur 0.01"
    and ps: "generateTimePoints eng dur interval = Inr ps"
  from generateTimePoints_result [of eng dur interval] ps obtain reg
    where st: "stepsFrom eng interval dur 0 reg"
      and alt: "ps = reg \<or>
                (reg \<noteq> [] \<and> last reg < fsub eng dur 0.1 \<and> ps = reg @ [fsub eng dur 0.01])"
    by auto
  have s: "sorted_wrt (<) reg" using stepsFrom_sorted [OF _ st] h by blast
  from alt show "sorted_wrt (<) ps"
  proof
    assume "ps = reg"
    then show ?thesis using s by simp
  next
    assume a: "reg \<noteq> [] \<and> last reg < fsub eng dur 0.1 \<and> ps = reg @ [fsub eng dur 0.01]"
    have "p < fsub eng dur 0.01" if "p \<in> set reg" for p
    proof -
      from that obtain j where j: "j < length reg" "p = reg ! j" by (auto simp: in_set_conv_nth)
      have "p \<le> last reg"
      proof (cases "j = length reg - 1")
        case True
        then show ?thesis using j a by (simp add: last_conv_nth)
      next
        case False
        then have "j < length reg - 1" using j by simp
        then have "reg ! j < reg ! (length reg - 1)"
          using s j by (simp add: sorted_wrt_iff_nth_less)
        then show ?thesis using j a by (simp add: last_conv_nth)
      qed
      then show ?thesis using a h by simp
    qed
    then show ?thesis using s a by (simp add: sorted_wrt_append)
  qed
next
  assume "dur \<le> 0"
  then show "generateTimePoints eng dur interval = Inr []"
    by (simp add: generateTimePoints_def generateLoop.simps [of eng dur interval 0 "[]"])
next
  assume h: "interval \<le> 0 \<and> 0 < dur \<and> (\<forall>t. fadd eng t interval \<le> t)"
  then have "\<not> stepsFrom eng interval dur 0 r" for r
    using stepsFrom_stuck [of eng interval 0 dur r] by blast
  then show "generateTimePoints eng dur interval = Inl RangeError"
    using generateTimePoints_result [of eng dur interval] by blast
next
  assume "generateTimePoints eng dur interval = Inl RangeError \<and> dur \<noteq> 0 \<and> src \<noteq> Url []"
  then show "delivered (hookExtract eng \<lparr>videoSrc = Some src, durationProp = Some dur,
                                    frameInterval = interval\<rparr> h)
               = delivered h @ [OnError (length (tasks h)) RangeError]"
    using hookExtract_error by blast
qed

theorem generateTimePoints_terminates_witness:
  "stepsFrom exact_engine 0.4 1 0 [0, 0.4, 0.8] \<and>
   length [0, 0.4, 0.8 :: real] < maxArrayLength exact_engine \<and>
   (0::real) < 0.4 \<and> (\<forall>t. t \<le> fadd exact_engine t 0.4) \<and>
   fsub exact_engine 1 0.1 \<le> fsub exact_engine 1 0.01 \<and>
   generateTimePoints exact_engine 1 0.4 = Inr [0, 0.4, 0.8, 0.99] \<and>
   sorted_wrt (<) [0, 0.4, 0.8, 0.99 :: real] \<and>
   generateTimePoints exact_engine (-1) 0.4 = Inr [] \<and>
   (0::real) \<le> 0 \<and> (0::real) < 1 \<and> (\<forall>t. fadd exact_engine t 0 \<le> t) \<and>
   generateTimePoints exact_engine 1 0 = Inl RangeError \<and>
   delivered (hookExtract exact_engine \<lparr>videoSrc = Some demo_src, durationProp = Some 1,
                                          frameInterval = 0\<rparr> newHook) = [OnError 0 RangeError]"
proof -
  have st: "stepsFrom exact_engine 0.4 1 0 [0, 0.4, 0.8]" by (simp add: exact_engine_def)
  have g: "generateTimePoints exact_engine 1 0.4 = Inr [0, 0.4, 0.8, 0.99]"
    using generateTimePoints_char [OF _ st] by (simp add: exact_engine_def)
  have m: "\<forall>t. t \<le> fadd exact_engine t 0.4" "\<forall>t. fadd exact_engine t 0 \<le> t"
    "fsub exact_engine 1 0.1 \<le> fsub exact_engine 1 0.01"
    by (simp_all add: exact_engine_def)
  show ?thesis
    using g m st
      generateTimePoints_terminates [where eng = exact_engine and dur = 1 and interval = "0.4"
        and src = demo_src and reg = "[0, 0.4, 0.8]" and h = newHook]
      generateTimePoints_terminates [where eng = exact_engine and dur = "-1" and interval = "0.4"
        and src = demo_src and reg = "[]" and h = newHook]
      generateTimePoints_terminates [where eng = exact_engine and dur = 1 and interval = 0
        and src = demo_src and reg = "[]" and h = newHook]
    by (simp add: demo_src_def exact_engine_def newHook_def)
qed

section \<open>Frame extraction: disposal and supersession\<close>

text \<open>
  C8, as stated: after \<open>dispose()\<close> an extraction in flight produces no further frame and
  no further progress callback. It fails: \<open>extractFrames\<close> reads \<open>isDisposed\<close> at the head of
  each loop iteration only. Here \<open>dispose()\<close> is called while the capture at time 0 is
  pending and no frame is captured yet; when that seek completes, the frame is appended
  and \<open>onProgress\<close> is called, and only then the loop stops.
\<close>

theorem dispose_counterexample:
  "pend (beforeDispose exact_engine demo_hook_opts demo_src [Vid (LoadedMetadata 10)])
     = AwaitSeek 0 0 \<and>
   frames (beforeDispose exact_engine demo_hook_opts demo_src [Vid (LoadedMetadata 10)]) = [] \<and>
   isDisposed (ext (fst (afterDispose exact_engine demo_hook_opts demo_src
                           [Vid (LoadedMetadata 10)] []))) \<and>
   frames (fst (afterDispose exact_engine demo_hook_opts demo_src [Vid (LoadedMetadata 10)]
                  [Vid (Seeked (Some ''a0''))]))
     = [\<lparr>frame_time = 0, imageData = ''a0''\<rparr>] \<and>
   snd (afterDispose exact_engine demo_hook_opts demo_src [Vid (LoadedMetadata 10)]
          [Vid (Seeked (Some ''a0''))])
     = [Progress (100 / 3), Complete [\<lparr>frame_time = 0, imageData = ''a0''\<rparr>]]"
  by (simp add: beforeDispose_def afterDispose_def demo_hook_opts_def demo_src_def
      generateTimePoints_demo hook_defs)

text \<open>
  C8, amended: take an extraction started by the hook, and call \<open>dispose()\<close> on its
  extractor at any moment. Whatever the video element does afterwards, and however often
  \<open>dispose()\<close> is called again: at most one further frame is captured; what the extraction
  hands over afterwards is nothing, or the progress call of the one capture that was
  pending followed by the frames captured so far as its result, or the error of that
  capture (the error for a disposed extractor and the load error are never raised);
  unless a capture was pending at the call, nothing at all is produced; and every blob
  URL the extractor created is revoked exactly once. After the cleanup of the hook, and
  as long as no new extraction is started, no progress, completion or error callback
  reaches the caller, whatever the video elements do.
\<close>

theorem dispose_stops_extraction:
  "length (frames (fst (afterDispose eng opts src es1 es2)))
     \<le> length (frames (beforeDispose eng opts src es1)) + 1 \<and>
   stoppedOutputs (snd (afterDispose eng opts src es1 es2))
     (frames (fst (afterDispose eng opts src es1 es2))) \<and>
   (isAwaitSeek (pend (beforeDispose eng opts src es1)) \<or>
      (snd (afterDispose eng opts src es1 es2) = [] \<and>
       frames (fst (afterDispose eng opts src es1 es2))
         = frames (beforeDispose eng opts src es1))) \<and>
   distinct (blobsRevoked (ext (fst (afterDispose eng opts src es1 es2)))) \<and>
   set (blobsRevoked (ext (fst (afterDispose eng opts src es1 es2))))
     = {..<blobsCreated (ext (fst (afterDispose eng opts src es1 es2)))} \<and>
   delivered (runHook eng (map (\<lambda>(k, ev). Video k ev) ves) (hookStep eng h Cleanup))
     = delivered h"
proof -
  let ?t = "beforeDispose eng opts src es1"
  let ?d = "fst (tstep eng DisposeCall ?t)"
  let ?r = "afterDispose eng opts src es1 es2"
  have d: "?d = ?t\<lparr>ext := dispose (ext ?t)\<rparr>" by (simp add: tstep_def)
  have q: "quiet (ext ?d)" by (simp add: d quiet_dispose)
  have r: "?r = runTask eng es2 ?d" by (simp add: afterDispose_def)
  have a: "length (frames (fst ?r)) \<le> length (frames ?t) + 1"
    "stoppedOutputs (snd ?r) (frames (fst ?r))"
    using seeking_runTask [OF q, where es = es2 and eng = eng] by (simp_all add: r d)
  have b: "isAwaitSeek (pend ?t) \<or> (snd ?r = [] \<and> frames (fst ?r) = frames ?t)"
  proof (cases "isAwaitSeek (pend ?t)")
    case True
    then show ?thesis by simp
  next
    case False
    then have "\<not> isAwaitSeek (pend ?d)" by (simp add: d)
    from settled_runTask [OF q this, where es = es2 and eng = eng]
    show ?thesis by (simp add: r d)
  qed
  have "ledger_ok (ext ?t)"
    unfolding beforeDispose_def by (rule ledger_ok_runTask [OF ledger_ok_startTask])
  then have "ledger_ok (ext ?d)" by (simp add: d ledger_ok_dispose)
  then have "ledger_ok (ext (fst ?r))" unfolding r by (rule ledger_ok_runTask)
  moreover have "blobUrl (ext (fst ?r)) = None"
    using quiet_runTask [OF q, where es = es2 and eng = eng] by (simp add: r quiet_def)
  ultimately have c: "distinct (blobsRevoked (ext (fst ?r)))"
    "set (blobsRevoked (ext (fst ?r))) = {..<blobsCreated (ext (fst ?r))}"
    by (simp_all add: ledger_ok_def)
  have e: "delivered (runHook eng (map (\<lambda>(k, ev). Video k ev) ves) (hookStep eng h Cleanup))
             = delivered h"
    using cleanup_aborts [of eng h] aborted_run [of "hookStep eng h Cleanup" eng ves] by simp
  from a b c e show ?thesis by blast
qed

text \<open>
  C2: a second extraction started while a first is in flight supersedes it: the first
  delivers no more progress and no completion, so the caller sees one completion, the
  second's. The hook does not do this on the run \<open>superseded_trace\<close>. Starting the
  second extraction sets \<open>abortRef\<close>, disposes the first extractor and clears \<open>abortRef\<close> again
  in the same call, and the \<open>seeked\<close> listener of the first extractor stays registered. When
  that seek completes, the first extraction passes both \<open>abortRef\<close> tests: its progress
  and its completion, with one frame, reach the caller, and the second extraction
  completes after it. The caller sees two completions.
\<close>

theorem superseded_extraction_delivers:
  "map pend (tasks (runHook exact_engine second_started newHook)) = [AwaitSeek 0 0, AwaitLoad] \<and>
   delivered (runHook exact_engine second_started newHook) = [] \<and>
   delivered (runHook exact_engine (second_started @ [Video 0 (Seeked (Some ''a0''))]) newHook)
     = [OnProgress 0 (100 / 3), OnComplete 0 [\<lparr>frame_time = 0, imageData = ''a0''\<rparr>]] \<and>
   filter isComplete (delivered (runHook exact_engine superseded_trace newHook))
     = [OnComplete 0 [\<lparr>frame_time = 0, imageData = ''a0''\<rparr>],
        OnComplete 1 [\<lparr>frame_time = 0, imageData = ''b0''\<rparr>,
                      \<lparr>frame_time = 5, imageData = ''b1''\<rparr>,
                      \<lparr>frame_time = 9.99, imageData = ''b2''\<rparr>]]"
  by (simp add: superseded_trace_def second_started_def demo_hook_opts_def demo_src_def
      generateTimePoints_demo hook_defs)

section \<open>Renderer: a thumbnail that does not load\<close>

text \<open>
  C3: when the image of one frame fails to load, the tiles of the other frames are still
  drawn, and so is the rest of the draw call. The renderer does not do this:
  \<open>preloadFrameImages\<close> awaits \<open>Promise.all\<close>, which rejects when one load rejects, and
  nothing catches it. With three frames of which the second does not decode, \<open>render\<close>
  rejects after the clear and the time scale: no tile, no selection mask, no handle and no
  cursor is drawn. When all three decode, all of them are drawn.
\<close>

theorem failed_thumbnail_aborts_render:
  "fst (render decodes_but_bad Map.empty demo_render) = Inl ImageLoadError \<and>
   fst (snd (render decodes_but_bad Map.empty demo_render)) = [ClearRect, DrawTimeScale] \<and>
   fst (snd (render (\<lambda>s. True) Map.empty demo_render)) =
     [ClearRect, DrawTimeScale, DrawImage ''a'' 16 27 (388 / 3) 50,
      DrawImage ''bad'' (436 / 3) 27 (388 / 3) 50,
      DrawImage ''c'' (824 / 3) 27 (388 / 3) 50,
      DrawSelectionMask, DrawHandles, DrawCursor]"
  by (simp add: render_def drawFrames_def preloadFrameImages_def demo_render_def
      demo_frames_def decodes_but_bad_def enumerate_eq_zip upt_rec Let_def)

end
